theory Spec2Isabelle
  imports Complex_Main "HOL-Library.Log_Nat"
begin

section \<open>Data model of \<open>app/services/resumeio.py\<close>\<close>

text \<open>
  Python strings are \<open>string\<close>s, byte strings too. A number is the rational it denotes:
  a JSON number as \<open>json.loads\<close> returned it, a Python float as the binary fraction it
  is. The float operations of \<open>_generate_pdf_searchable\<close> round their results, see
  \<open>to_float\<close> below; \<open>_generate_pdf\<close> hands its numbers to FPDF as they are.
  Every exception that the source can raise is a value of \<open>error\<close>; a function that
  can raise returns \<open>error + 'a\<close>, with \<open>Inl\<close> for the exception.
\<close>

type_synonym bytes = string

datatype error =
    HTTPException nat string
  | JSONDecodeError
  | AttributeError
  | TypeError
  | IndexError
  | ValueError
  | ZeroDivisionError
  | RequestException
  | OSError
  | TesseractError

text \<open>One entry of a page's \<open>links\<close> list: the keys \<open>left\<close>, \<open>top\<close>, \<open>width\<close>, \<open>height\<close>, \<open>url\<close>.\<close>

record link =
  link_left :: rat
  link_top :: rat
  link_width :: rat
  link_height :: rat
  link_url :: string

text \<open>
  One entry of the \<open>pages\<close> array. \<open>.get("viewport")\<close> and \<open>.get("links")\<close> return \<open>None\<close>
  for a missing key. The viewport is a JSON object, kept as the list of its members in
  document order, because the source reads it with \<open>.values()\<close>.
\<close>

record page_meta =
  viewport :: "(string \<times> rat) list option"
  links :: "link list option"

text \<open>
  What \<open>json.loads\<close> makes of the text of the metadata response: it raises on text that is
  not JSON, and only a JSON object has \<open>.get\<close>. \<open>JsonObject None\<close> is an object without the
  key \<open>pages\<close> (or with \<open>null\<close> there).
\<close>

datatype meta_body = NotJson | JsonNonObject | JsonObject "page_meta list option"

record response =
  status_code :: nat
  text_of :: string

text \<open>
  The collaborators: \<open>requests.get\<close> for the metadata and for an image, \<open>json.loads\<close>,
  whether \<open>open('/files/file.png', 'w+b')\<close> succeeds, and tesseract followed by
  \<open>PdfReader(...).pages[0]\<close>, which gives the media box (width, height) of the OCR page.
\<close>

record env =
  requests_get :: "string \<Rightarrow> error + response"
  json_loads :: "string \<Rightarrow> meta_body"
  image_get :: "string \<Rightarrow> error + bytes"
  file_open_ok :: bool
  image_to_pdf :: "bytes \<Rightarrow> error + rat \<times> rat"

text \<open>
  The world outside the object: the content of \<open>/files/file.png\<close> (\<open>None\<close> when the file
  does not exist), and the addresses requested so far, oldest first.
\<close>

datatype request = MetadataRequest string | ImageRequest string

record world =
  file_png :: "bytes option"
  http_log :: "request list"

subsection \<open>Python floats\<close>

text \<open>
  A Python float is an IEEE binary64 number, and an operation on floats returns the exact
  result rounded to 53 significant bits, to the nearest such number, a tie going to the
  even one. \<open>binary_exponent a\<close> is the \<open>e\<close> with \<open>2 powi e \<le> a < 2 powi (e + 1)\<close> for a
  positive \<open>a\<close>, found from the bit lengths of numerator and denominator. The range of the
  exponent is not bounded here: no result overflows to \<open>inf\<close> or falls among the
  subnormal numbers.
\<close>

definition round_half_even :: "rat \<Rightarrow> int" where
  "round_half_even x =
     (let n = \<lfloor>x\<rfloor>; r = x - of_int n
      in if r < 1 / 2 then n else if 1 / 2 < r then n + 1 else if even n then n else n + 1)"

definition binary_exponent :: "rat \<Rightarrow> int" where
  "binary_exponent a =
     (let p = fst (quotient_of a); q = snd (quotient_of a); e0 = bitlen p - bitlen q
      in if a < 2 powi e0 then e0 - 1 else e0)"

text \<open>\<open>float(x)\<close>, and the rounding at the end of every float operation.\<close>

definition to_float :: "rat \<Rightarrow> rat" where
  "to_float x =
     (if x = 0 then 0
      else (let s = 2 powi (binary_exponent \<bar>x\<bar> - 52)
            in of_int (round_half_even (x / s)) * s))"

text \<open>\<open>a / b\<close> and \<open>a * b\<close> on two floats (\<open>b\<close> is not zero where \<open>/\<close> is used).\<close>

definition float_truediv :: "rat \<Rightarrow> rat \<Rightarrow> rat" where
  "float_truediv a b = to_float (a / b)"

definition float_mul :: "rat \<Rightarrow> rat \<Rightarrow> rat" where
  "float_mul a b = to_float (a * b)"

subsection \<open>The two PDF libraries, as far as the source uses them\<close>

text \<open>
  FPDF: a document has a default page format; \<open>add_page()\<close> opens a page of that format;
  \<open>image\<close> and \<open>link\<close> draw on the page opened last.
\<close>

record fpdf_page =
  fp_dims :: "rat \<times> rat"
  fp_images :: "(bytes \<times> rat \<times> rat) list"
  fp_links :: "(rat \<times> rat \<times> rat \<times> rat \<times> string) list"

record fpdf =
  fpdf_format :: "rat \<times> rat"
  fpdf_pages :: "fpdf_page list"

definition FPDF :: "rat \<times> rat \<Rightarrow> fpdf" where
  "FPDF fmt = \<lparr>fpdf_format = fmt, fpdf_pages = []\<rparr>"

definition on_last :: "('a \<Rightarrow> 'a) \<Rightarrow> 'a list \<Rightarrow> 'a list" where
  "on_last f xs = (case rev xs of [] \<Rightarrow> [] | p # ps \<Rightarrow> rev ps @ [f p])"

definition add_page :: "fpdf \<Rightarrow> fpdf" where
  "add_page pdf = pdf\<lparr>fpdf_pages := fpdf_pages pdf @
     [\<lparr>fp_dims = fpdf_format pdf, fp_images = [], fp_links = []\<rparr>]\<rparr>"

definition image :: "fpdf \<Rightarrow> bytes \<Rightarrow> rat \<Rightarrow> rat \<Rightarrow> fpdf" where
  "image pdf content w h = pdf\<lparr>fpdf_pages :=
     on_last (\<lambda>p. p\<lparr>fp_images := fp_images p @ [(content, w, h)]\<rparr>) (fpdf_pages pdf)\<rparr>"

definition fpdf_link :: "fpdf \<Rightarrow> rat \<Rightarrow> rat \<Rightarrow> rat \<Rightarrow> rat \<Rightarrow> string \<Rightarrow> fpdf" where
  "fpdf_link pdf x y w h u = pdf\<lparr>fpdf_pages :=
     on_last (\<lambda>p. p\<lparr>fp_links := fp_links p @ [(x, y, w, h, u)]\<rparr>) (fpdf_pages pdf)\<rparr>"

text \<open>
  pypdf: a page has a media box, here its width and height; \<open>scale_by\<close> multiplies both
  sides, each converted with \<open>float\<close>, by the factor; the writer holds the pages added so
  far; \<open>add_annotation\<close> attaches a link rectangle
  \<open>(x1, y1, x2, y2)\<close> to the page of the given number, which must exist.
\<close>

record writer_page =
  wp_dims :: "rat \<times> rat"
  wp_annotations :: "((rat \<times> rat \<times> rat \<times> rat) \<times> string) list"

definition scale_by :: "rat \<times> rat \<Rightarrow> rat \<Rightarrow> rat \<times> rat" where
  "scale_by box f = (float_mul (to_float (fst box)) f, float_mul (to_float (snd box)) f)"

definition writer_add_page :: "writer_page list \<Rightarrow> rat \<times> rat \<Rightarrow> writer_page list" where
  "writer_add_page wr box = wr @ [\<lparr>wp_dims = box, wp_annotations = []\<rparr>]"

definition add_annotation ::
  "writer_page list \<Rightarrow> nat \<Rightarrow> (rat \<times> rat \<times> rat \<times> rat) \<times> string \<Rightarrow> error + writer_page list" where
  "add_annotation wr page_number a =
     (if page_number < length wr
      then Inr (wr[page_number := (wr ! page_number)
                  \<lparr>wp_annotations := wp_annotations (wr ! page_number) @ [a]\<rparr>])
      else Inl IndexError)"

text \<open>The serialised document stands for its pages: the encoders are not modelled.\<close>

datatype pdf_buffer = FpdfOutput fpdf | WriterOutput "writer_page list"

subsection \<open>The downloader object\<close>

text \<open>
  The fields of the dataclass, and the attributes \<open>metadata\<close> and \<open>buffer\<close> that \<open>run\<close>
  sets (\<open>None\<close> before the first run; \<open>metadata\<close> is also \<open>None\<close> when \<open>.get("pages")\<close>
  returned \<open>None\<close>).
\<close>

record downloader =
  resume_id :: string
  extension :: string
  image_size :: int
  cache_date :: string
  images_urls :: "string list"
  metadata :: "page_meta list option"
  buffer :: "pdf_buffer option"

section \<open>Construction\<close>

subsection \<open>The two patterns of \<open>__post_init__\<close>\<close>

definition is_alnum :: "char \<Rightarrow> bool" where
  "is_alnum c \<longleftrightarrow>
     (let n = (of_char c :: nat)
      in (97 \<le> n \<and> n \<le> 122) \<or> (65 \<le> n \<and> n \<le> 90) \<or> (48 \<le> n \<and> n \<le> 57))"

definition newline :: char where
  "newline = CHR 0x0A"

text \<open>
  \<open>^[a-zA-Z0-9]{9}$\<close> under \<open>search\<close>: nine characters of the class from the start of
  the string, then the end of the string, where Python's \<open>$\<close> also matches just before a
  newline that ends the string.
\<close>

definition pattern_id_search :: "string \<Rightarrow> bool" where
  "pattern_id_search s \<longleftrightarrow>
     length (take 9 s) = 9 \<and> list_all is_alnum (take 9 s) \<and>
     (drop 9 s = [] \<or> drop 9 s = [newline])"

text \<open>
  \<open>(?<=resume.io/r/)([a-zA-Z0-9]){9}\<close>: \<open>url_match_here t\<close> says that \<open>t\<close> starts with the
  twelve characters of the look-behind (its unescaped dot is any character but a newline)
  followed by nine characters of the class. \<open>search\<close> returns the leftmost match, and
  \<open>group(0)\<close> is the nine characters.
\<close>

definition url_match_here :: "string \<Rightarrow> bool" where
  "url_match_here t \<longleftrightarrow>
     take 6 t = ''resume'' \<and>
     (case drop 6 t of [] \<Rightarrow> False | d # r \<Rightarrow> d \<noteq> newline \<and> take 5 r = ''io/r/'') \<and>
     length (take 9 (drop 12 t)) = 9 \<and> list_all is_alnum (take 9 (drop 12 t))"

fun pattern_url_search :: "string \<Rightarrow> string option" where
  "pattern_url_search [] = None"
| "pattern_url_search (c # cs) =
     (if url_match_here (c # cs) then Some (take 9 (drop 12 (c # cs)))
      else pattern_url_search cs)"

definition post_init :: "downloader \<Rightarrow> error + downloader" where
  "post_init self =
     (if pattern_id_search (resume_id self) then Inr self
      else (case pattern_url_search (resume_id self) of
              Some t \<Rightarrow> Inr (self\<lparr>resume_id := t\<rparr>)
            | None \<Rightarrow> Inl (HTTPException 400 (''Invalid resume id: '' @ resume_id self))))"

subsection \<open>The class body and the generated \<open>__init__\<close>\<close>

text \<open>
  The default of \<open>cache_date\<close> is the expression
  \<open>datetime.utcnow().isoformat()[:-4] + "Z"\<close> in the class body: Python evaluates it when
  the class statement runs, that is when the module is loaded, and the dataclass keeps
  the value as the default of the field. \<open>load_module\<close> takes what
  \<open>datetime.utcnow().isoformat()\<close> returns at that moment.
\<close>

record module_state =
  default_cache_date :: string

definition load_module :: "string \<Rightarrow> module_state" where
  "load_module utcnow_isoformat =
     \<lparr>default_cache_date = take (length utcnow_isoformat - 4) utcnow_isoformat @ ''Z''\<rparr>"

text \<open>
  The generated \<open>__init__\<close> stores each argument, or the default of its field when the
  argument is not given, and calls \<open>__post_init__\<close>. \<open>utcnow_isoformat\<close> is what the clock
  would return during the call: nothing in the constructor reads it.
\<close>

definition ResumeioDownloader ::
  "module_state \<Rightarrow> string \<Rightarrow> string \<Rightarrow> string option \<Rightarrow> int option \<Rightarrow> string option
     \<Rightarrow> error + downloader" where
  "ResumeioDownloader m utcnow_isoformat rid ext sz cache =
     post_init
       \<lparr>resume_id = rid,
        extension = (case ext of None \<Rightarrow> ''png'' | Some e \<Rightarrow> e),
        image_size = (case sz of None \<Rightarrow> 1800 | Some n \<Rightarrow> n),
        cache_date = (case cache of None \<Rightarrow> default_cache_date m | Some c \<Rightarrow> c),
        images_urls = [],
        metadata = None,
        buffer = None\<rparr>"

section \<open>The run\<close>

subsection \<open>Addresses\<close>

text \<open>\<open>str.format\<close> writes an integer in decimal.\<close>

definition digit_char :: "nat \<Rightarrow> char" where
  "digit_char n = char_of (48 + n)"

fun str_nat :: "nat \<Rightarrow> string" where
  "str_nat n = (if n < 10 then [digit_char n] else str_nat (n div 10) @ [digit_char (n mod 10)])"

declare str_nat.simps [simp del]

definition str_int :: "int \<Rightarrow> string" where
  "str_int i = (if i < 0 then CHR ''-'' # str_nat (nat (- i)) else str_nat (nat i))"

definition METADATA_URL :: "string \<Rightarrow> string \<Rightarrow> string" where
  "METADATA_URL rid cache = ''https://ssr.resume.tools/meta/ssid-'' @ rid @ ''?cache='' @ cache"

definition IMAGE_URL :: "string \<Rightarrow> nat \<Rightarrow> string \<Rightarrow> string \<Rightarrow> int \<Rightarrow> string" where
  "IMAGE_URL rid page_id ext cache sz =
     ''https://ssr.resume.tools/to-image/ssid-'' @ rid @ ''-'' @ str_nat page_id @ ''.'' @ ext @
     ''?cache='' @ cache @ ''&size='' @ str_int sz"

subsection \<open>\<open>_get_resume_metadata\<close> and \<open>_format_images_urls\<close>\<close>

text \<open>
  A method takes the object and the world and returns its result with both as it leaves
  them, also when it raises: what it did before the exception stays done.
\<close>

definition get_resume_metadata ::
  "env \<Rightarrow> downloader \<times> world \<Rightarrow> (error + unit) \<times> downloader \<times> world" where
  "get_resume_metadata e sw =
     (let self = fst sw;
          url = METADATA_URL (resume_id self) (cache_date self);
          wd = (snd sw)\<lparr>http_log := http_log (snd sw) @ [MetadataRequest url]\<rparr>
      in case requests_get e url of
           Inl err \<Rightarrow> (Inl err, self, wd)
         | Inr request \<Rightarrow>
             (case json_loads e (text_of request) of
                NotJson \<Rightarrow> (Inl JSONDecodeError, self, wd)
              | JsonNonObject \<Rightarrow> (Inl AttributeError, self, wd)
              | JsonObject pages \<Rightarrow> (Inr (), self\<lparr>metadata := pages\<rparr>, wd)))"

definition append_image_url :: "downloader \<Rightarrow> nat \<Rightarrow> downloader" where
  "append_image_url self page_id =
     self\<lparr>images_urls := images_urls self @
       [IMAGE_URL (resume_id self) page_id (extension self) (cache_date self) (image_size self)]\<rparr>"

text \<open>\<open>len(self.metadata)\<close> raises TypeError on \<open>None\<close>.\<close>

definition format_images_urls :: "downloader \<Rightarrow> error + downloader" where
  "format_images_urls self =
     (case metadata self of
        None \<Rightarrow> Inl TypeError
      | Some md \<Rightarrow> Inr (foldl append_image_url self [1 ..< 1 + length md]))"

subsection \<open>What both generators read from the metadata\<close>

text \<open>
  \<open>a, b = self.metadata[0].get("viewport").values()\<close>: IndexError on an empty list,
  AttributeError when the page has no viewport, ValueError unless the object has exactly
  two members; the two values come in the order of the members.
\<close>

definition first_viewport :: "page_meta list \<Rightarrow> error + rat \<times> rat" where
  "first_viewport md =
     (case md of
        [] \<Rightarrow> Inl IndexError
      | p # _ \<Rightarrow>
          (case viewport p of
             None \<Rightarrow> Inl AttributeError
           | Some vp \<Rightarrow> (case map snd vp of [a, b] \<Rightarrow> Inr (a, b) | _ \<Rightarrow> Inl ValueError)))"

text \<open>
  \<open>self.metadata[i].get("links")\<close> as the \<open>for\<close> statement receives it: IndexError when
  \<open>i\<close> is not an index of the list, TypeError when the page has no links to iterate.
\<close>

definition page_links :: "page_meta list \<Rightarrow> nat \<Rightarrow> error + link list" where
  "page_links md i =
     (if i < length md
      then (case links (md ! i) of None \<Rightarrow> Inl TypeError | Some ls \<Rightarrow> Inr ls)
      else Inl IndexError)"

subsection \<open>\<open>_generate_pdf\<close>\<close>

fun plain_links :: "fpdf \<Rightarrow> rat \<Rightarrow> link list \<Rightarrow> fpdf" where
  "plain_links pdf h [] = pdf"
| "plain_links pdf h (l # ls) =
     (let x = link_left l; y = h - link_top l
      in plain_links (fpdf_link pdf x y (link_width l) (link_height l) (link_url l)) h ls)"

text \<open>
  The loop over \<open>enumerate(self.images_urls)\<close>. \<open>pdf.image\<close> fetches the address itself;
  the fetch is recorded in the world.
\<close>

fun generate_pdf_loop ::
  "env \<Rightarrow> page_meta list \<Rightarrow> rat \<Rightarrow> rat \<Rightarrow> nat \<Rightarrow> string list \<Rightarrow> fpdf \<times> world
     \<Rightarrow> (error + fpdf) \<times> world" where
  "generate_pdf_loop e md w h i [] (pdf, wd) = (Inr pdf, wd)"
| "generate_pdf_loop e md w h i (image_url # urls) (pdf, wd) =
     (let pdf1 = add_page pdf;
          wd1 = wd\<lparr>http_log := http_log wd @ [ImageRequest image_url]\<rparr>
      in case image_get e image_url of
           Inl err \<Rightarrow> (Inl err, wd1)
         | Inr content \<Rightarrow>
             (case page_links md i of
                Inl err \<Rightarrow> (Inl err, wd1)
              | Inr ls \<Rightarrow>
                  generate_pdf_loop e md w h (Suc i) urls
                    (plain_links (image pdf1 content w h) h ls, wd1)))"

definition generate_pdf ::
  "env \<Rightarrow> downloader \<times> world \<Rightarrow> (error + unit) \<times> downloader \<times> world" where
  "generate_pdf e sw =
     (let self = fst sw; wd = snd sw
      in case metadata self of
           None \<Rightarrow> (Inl TypeError, self, wd)
         | Some md \<Rightarrow>
             (case first_viewport md of
                Inl err \<Rightarrow> (Inl err, self, wd)
              | Inr (w, h) \<Rightarrow>
                  (case generate_pdf_loop e md w h 0 (images_urls self) (FPDF (w, h), wd) of
                     (Inl err, wd') \<Rightarrow> (Inl err, self, wd')
                   | (Inr pdf, wd') \<Rightarrow>
                       (Inr (), self\<lparr>buffer := Some (FpdfOutput pdf)\<rparr>, wd'))))"

subsection \<open>\<open>_generate_pdf_searchable\<close>\<close>

fun searchable_links :: "writer_page list \<Rightarrow> nat \<Rightarrow> link list \<Rightarrow> error + writer_page list" where
  "searchable_links wr i [] = Inr wr"
| "searchable_links wr i (l # ls) =
     (let x = link_left l; y = link_top l;
          annotation = ((x, y, x + link_width l, y + link_height l), link_url l)
      in case add_annotation wr i annotation of
           Inl err \<Rightarrow> Inl err
         | Inr wr' \<Rightarrow> searchable_links wr' i ls)"

text \<open>Tesseract reads the file that the loop has just written.\<close>

definition tesseract :: "env \<Rightarrow> world \<Rightarrow> error + rat \<times> rat" where
  "tesseract e wd = (case file_png wd of None \<Rightarrow> Inl TesseractError | Some c \<Rightarrow> image_to_pdf e c)"

text \<open>
  \<open>h = float(page.mediabox.height)\<close>, \<open>w = float(page.mediabox.width)\<close>,
  \<open>scale_factor = min(target_h/h, target_w/w)\<close> and \<open>page.scale_by(scale_factor)\<close>, on the
  media box of the OCR page. The two targets are JSON numbers, which \<open>/\<close> converts to
  floats; a division by zero raises.
\<close>

definition scale_page :: "rat \<Rightarrow> rat \<Rightarrow> rat \<times> rat \<Rightarrow> error + rat \<times> rat \<times> rat" where
  "scale_page target_w target_h box =
     (let h = to_float (snd box); w = to_float (fst box)
      in if h = 0 \<or> w = 0 then Inl ZeroDivisionError
         else (let scale_factor = min (float_truediv (to_float target_h) h)
                                      (float_truediv (to_float target_w) w)
               in Inr (scale_factor, scale_by box scale_factor)))"

fun searchable_loop ::
  "env \<Rightarrow> page_meta list \<Rightarrow> rat \<Rightarrow> rat \<Rightarrow> nat \<Rightarrow> string list \<Rightarrow> writer_page list \<times> world
     \<Rightarrow> (error + writer_page list) \<times> world" where
  "searchable_loop e md target_w target_h i [] (wr, wd) = (Inr wr, wd)"
| "searchable_loop e md target_w target_h i (image_url # urls) (wr, wd) =
     (let wd1 = wd\<lparr>http_log := http_log wd @ [ImageRequest image_url]\<rparr>
      in case image_get e image_url of
           Inl err \<Rightarrow> (Inl err, wd1)
         | Inr img \<Rightarrow>
             if \<not> file_open_ok e then (Inl OSError, wd1)
             else
               (let wd2 = wd1\<lparr>file_png := Some img\<rparr>
                in case tesseract e wd2 of
                     Inl err \<Rightarrow> (Inl err, wd2)
                   | Inr box \<Rightarrow>
                       (case scale_page target_w target_h box of
                          Inl err \<Rightarrow> (Inl err, wd2)
                        | Inr (scale_factor, page) \<Rightarrow>
                            (case page_links md i of
                               Inl err \<Rightarrow> (Inl err, wd2)
                             | Inr ls \<Rightarrow>
                                 (case searchable_links (writer_add_page wr page) i ls of
                                    Inl err \<Rightarrow> (Inl err, wd2)
                                  | Inr wr' \<Rightarrow>
                                      searchable_loop e md target_w target_h (Suc i) urls
                                        (wr', wd2))))))"

text \<open>\<open>os.remove\<close> raises when there is no such file.\<close>

definition os_remove :: "world \<Rightarrow> error + world" where
  "os_remove wd = (case file_png wd of None \<Rightarrow> Inl OSError | Some _ \<Rightarrow> Inr (wd\<lparr>file_png := None\<rparr>))"

definition generate_pdf_searchable ::
  "env \<Rightarrow> downloader \<times> world \<Rightarrow> (error + unit) \<times> downloader \<times> world" where
  "generate_pdf_searchable e sw =
     (let self = fst sw; wd = snd sw
      in case metadata self of
           None \<Rightarrow> (Inl TypeError, self, wd)
         | Some md \<Rightarrow>
             (case first_viewport md of
                Inl err \<Rightarrow> (Inl err, self, wd)
              | Inr (target_w, target_h) \<Rightarrow>
                  (case searchable_loop e md target_w target_h 0 (images_urls self) ([], wd) of
                     (Inl err, wd') \<Rightarrow> (Inl err, self, wd')
                   | (Inr wr, wd') \<Rightarrow>
                       (case os_remove wd' of
                          Inl err \<Rightarrow> (Inl err, self, wd')
                        | Inr wd'' \<Rightarrow>
                            (Inr (), self\<lparr>buffer := Some (WriterOutput wr)\<rparr>, wd'')))))"

subsection \<open>\<open>run\<close>\<close>

definition run ::
  "env \<Rightarrow> bool \<Rightarrow> downloader \<times> world \<Rightarrow> (error + pdf_buffer) \<times> downloader \<times> world" where
  "run e searchable sw =
     (case get_resume_metadata e sw of
        (Inl err, self, wd) \<Rightarrow> (Inl err, self, wd)
      | (Inr _, self, wd) \<Rightarrow>
          (case format_images_urls self of
             Inl err \<Rightarrow> (Inl err, self, wd)
           | Inr self1 \<Rightarrow>
               (case (if searchable then generate_pdf_searchable e (self1, wd)
                      else generate_pdf e (self1, wd)) of
                  (Inl err, self2, wd2) \<Rightarrow> (Inl err, self2, wd2)
                | (Inr _, self2, wd2) \<Rightarrow>
                    (case buffer self2 of
                       None \<Rightarrow> (Inl AttributeError, self2, wd2)
                     | Some b \<Rightarrow> (Inr b, self2, wd2)))))"

subsection \<open>Calling \<open>run\<close> again, and counting pages\<close>

text \<open>
  \<open>run_times e s k\<close> is \<open>k\<close> calls of \<open>run\<close> on the same object, one after the other,
  whatever each call returns or raises. \<open>page_count\<close> is the number of pages of a
  returned document.
\<close>

fun run_times :: "env \<Rightarrow> bool \<Rightarrow> nat \<Rightarrow> downloader \<times> world \<Rightarrow> downloader \<times> world" where
  "run_times e searchable 0 sw = sw"
| "run_times e searchable (Suc k) sw = run_times e searchable k (snd (run e searchable sw))"

definition page_count :: "pdf_buffer \<Rightarrow> nat" where
  "page_count b =
     (case b of FpdfOutput pdf \<Rightarrow> length (fpdf_pages pdf) | WriterOutput wr \<Rightarrow> length wr)"

section \<open>Example inputs\<close>

text \<open>
  Concrete metadata, collaborators and objects, on which the theorems below are evaluated.
  \<open>example_env status body ocr\<close> answers the metadata request with the given status and a
  text that \<open>json.loads\<close> turns into \<open>body\<close>, serves every image, and lets tesseract
  return \<open>ocr\<close>.
\<close>

definition example_link :: link where
  "example_link = \<lparr>link_left = 10, link_top = 20, link_width = 100, link_height = 50,
                     link_url = ''https://example.com''\<rparr>"

definition page_a :: page_meta where
  "page_a = \<lparr>viewport = Some [(''width'', 500), (''height'', 800)], links = Some [example_link]\<rparr>"

definition page_b :: page_meta where
  "page_b = \<lparr>viewport = Some [(''width'', 400), (''height'', 600)], links = Some [example_link]\<rparr>"

definition page_c :: page_meta where
  "page_c = \<lparr>viewport = Some [(''width'', 500), (''height'', 700)], links = Some []\<rparr>"


definition example_env :: "nat \<Rightarrow> meta_body \<Rightarrow> error + rat \<times> rat \<Rightarrow> env" where
  "example_env status body ocr =
     \<lparr>requests_get = (\<lambda>u. Inr \<lparr>status_code = status, text_of = ''body''\<rparr>),
      json_loads = (\<lambda>t. body),
      image_get = (\<lambda>u. Inr ''PNG''),
      file_open_ok = True,
      image_to_pdf = (\<lambda>b. ocr)\<rparr>"

definition fresh_downloader :: downloader where
  "fresh_downloader =
     \<lparr>resume_id = ''abc123XYZ'', extension = ''png'', image_size = 1800,
      cache_date = ''2024-01-01T00:00:00.00Z'', images_urls = [], metadata = None,
      buffer = None\<rparr>"

definition empty_world :: world where
  "empty_world = \<lparr>file_png = None, http_log = []\<rparr>"

text \<open>
  Two pages, of which the service delivers the image of the first and refuses every other
  image.
\<close>

definition second_fetch_fails :: env where
  "second_fetch_fails =
     (example_env 200 (JsonObject (Some [page_c, page_b])) (Inr (612, 792)))
       \<lparr>image_get := (\<lambda>u. if u = IMAGE_URL ''abc123XYZ'' 1 ''png'' ''2024-01-01T00:00:00.00Z'' 1800
                           then Inr ''PNG'' else Inl RequestException)\<rparr>"

section \<open>How far a rounded result is from the exact one\<close>

lemma round_half_even_close: "\<bar>of_int (round_half_even x) - x\<bar> \<le> 1 / 2"
proof -
  have "of_int \<lfloor>x\<rfloor> \<le> x" "x < of_int \<lfloor>x\<rfloor> + 1" by linarith+
  then show ?thesis
    by (auto simp: round_half_even_def Let_def abs_le_iff)
qed

lemma binary_exponent_le:
  assumes "0 < a"
  shows "2 powi binary_exponent a \<le> a"
proof -
  obtain p q where pq: "quotient_of a = (p, q)" by (cases "quotient_of a")
  then have q: "0 < q" and a: "a = of_int p / of_int q"
    using quotient_of_denom_pos [OF pq] quotient_of_div [OF pq] by simp_all
  with assms have p: "0 < p" by (simp add: zero_less_divide_iff)
  let ?e0 = "bitlen p - bitlen q"
  show ?thesis
  proof (cases "a < 2 powi ?e0")
    case False
    then show ?thesis by (simp add: binary_exponent_def pq)
  next
    case True
    then have e: "binary_exponent a = ?e0 - 1" by (simp add: binary_exponent_def pq)
    have bp: "1 \<le> bitlen p" "1 \<le> bitlen q" using p q by (auto simp: bitlen_alt_def)
    from bitlen_bounds [OF p] have "(2 :: int) ^ nat (bitlen p - 1) \<le> p" by simp
    then have "(of_int ((2 :: int) ^ nat (bitlen p - 1)) :: rat) \<le> of_int p"
      by (simp only: of_int_le_iff)
    then have lo: "(2 :: rat) powi (bitlen p - 1) \<le> of_int p"
      using bp by (simp add: power_int_def)
    from bitlen_bounds [OF q] have "q < (2 :: int) ^ nat (bitlen q)" by simp
    then have "(of_int q :: rat) < of_int ((2 :: int) ^ nat (bitlen q))"
      by (simp only: of_int_less_iff)
    then have hi: "of_int q \<le> (2 :: rat) powi bitlen q"
      using bp by (simp add: power_int_def)
    have "(2 :: rat) powi (?e0 - 1) = 2 powi (bitlen p - 1) / 2 powi bitlen q"
      by (simp add: power_int_diff)
    also have "\<dots> \<le> of_int p / 2 powi bitlen q"
      using lo by (simp add: divide_right_mono)
    also have "\<dots> \<le> of_int p / of_int q"
      using hi p q by (simp add: frac_le)
    also have "\<dots> = a" by (simp only: a)
    finally show ?thesis by (simp only: e)
  qed
qed

lemma to_float_close: "\<bar>to_float x - x\<bar> \<le> \<bar>x\<bar> / 2 ^ 53"
proof (cases "x = 0")
  case True
  then show ?thesis by (simp add: to_float_def)
next
  case False
  define s :: rat where "s = 2 powi (binary_exponent \<bar>x\<bar> - 52)"
  have s: "0 < s" by (simp add: s_def)
  have "s * 2 ^ 52 = 2 powi binary_exponent \<bar>x\<bar>"
    by (simp add: s_def power_int_diff)
  also have "\<dots> \<le> \<bar>x\<bar>" using False by (intro binary_exponent_le) simp
  finally have lo: "s * 2 ^ 52 \<le> \<bar>x\<bar>" .
  have "to_float x - x = (of_int (round_half_even (x / s)) - x / s) * s"
    using False s by (simp add: to_float_def s_def [symmetric] Let_def algebra_simps)
  then have "\<bar>to_float x - x\<bar> = \<bar>of_int (round_half_even (x / s)) - x / s\<bar> * s"
    using s by (simp add: abs_mult)
  also have "\<dots> \<le> 1 / 2 * s"
    using round_half_even_close [of "x / s"] s by (intro mult_right_mono) simp_all
  also have "\<dots> = s * 2 ^ 52 / 2 ^ 53" by simp
  also have "\<dots> \<le> \<bar>x\<bar> / 2 ^ 53" using lo by (intro divide_right_mono) simp_all
  finally show ?thesis .
qed

lemma to_float_le: "to_float x \<le> x + \<bar>x\<bar> / 2 ^ 53"
  using to_float_close [of x] by linarith

lemma to_float_ge: "x - \<bar>x\<bar> / 2 ^ 53 \<le> to_float x"
  using to_float_close [of x] by linarith

lemma to_float_pos: "0 < x \<Longrightarrow> 0 < to_float x"
proof -
  assume x: "0 < x"
  have "x / 2 ^ 53 < x" using x by (simp add: divide_less_eq)
  with to_float_ge [of x] x show ?thesis by simp
qed

lemma to_float_neg: "x < 0 \<Longrightarrow> to_float x < 0"
proof -
  assume x: "x < 0"
  have "- x / 2 ^ 53 < - x" using x by (simp add: divide_less_eq)
  with to_float_le [of x] x show ?thesis by simp
qed

lemma to_float_eq_0_iff: "to_float x = 0 \<longleftrightarrow> x = 0"
proof
  assume z: "to_float x = 0"
  show "x = 0"
  proof (rule ccontr)
    assume "x \<noteq> 0"
    then consider "0 < x" | "x < 0" by linarith
    then show False
    proof cases
      case 1
      from to_float_pos [OF this] z show False by simp
    next
      case 2
      from to_float_neg [OF this] z show False by simp
    qed
  qed
next
  assume "x = 0"
  then show "to_float x = 0" by (simp add: to_float_def)
qed



section \<open>The loops and the methods, step by step\<close>

lemma on_last_snoc: "on_last f (xs @ [p]) = xs @ [f p]"
  by (simp add: on_last_def)

lemma foldl_append_image_url:
  "foldl append_image_url self ks =
     self\<lparr>images_urls := images_urls self @
       map (\<lambda>k. IMAGE_URL (resume_id self) k (extension self) (cache_date self) (image_size self)) ks\<rparr>"
  by (induction ks arbitrary: self) (simp_all add: append_image_url_def)

lemma plain_links_snoc:
  "fpdf_pages pdf = ps @ [p] \<Longrightarrow>
   plain_links pdf h ls =
     pdf\<lparr>fpdf_pages := ps @ [p\<lparr>fp_links := fp_links p @
       map (\<lambda>l. (link_left l, h - link_top l, link_width l, link_height l, link_url l)) ls\<rparr>]\<rparr>"
proof (induction ls arbitrary: pdf p)
  case Nil
  then show ?case by simp
next
  case (Cons l ls)
  have "fpdf_pages (fpdf_link pdf (link_left l) (h - link_top l) (link_width l) (link_height l) (link_url l))
        = ps @ [p\<lparr>fp_links := fp_links p @ [(link_left l, h - link_top l, link_width l, link_height l, link_url l)]\<rparr>]"
    using Cons.prems by (simp add: fpdf_link_def on_last_snoc)
  from Cons.IH [OF this] show ?case
    by (simp add: fpdf_link_def Let_def)
qed

lemma searchable_links_at:
  "i < length wr \<Longrightarrow>
   searchable_links wr i ls =
     Inr (wr[i := (wr ! i)\<lparr>wp_annotations := wp_annotations (wr ! i) @
       map (\<lambda>l. ((link_left l, link_top l, link_left l + link_width l, link_top l + link_height l),
                  link_url l)) ls\<rparr>])"
proof (induction ls arbitrary: wr)
  case Nil
  then show ?case by simp
next
  case (Cons l ls)
  then show ?case
    by (simp add: add_annotation_def Let_def)
qed


lemma generate_pdf_loop_ok:
  assumes "generate_pdf_loop e md w h i urls (pdf, wd) = (Inr pdf', wd')"
    and "length (fpdf_pages pdf) = i"
  shows "fpdf_format pdf' = fpdf_format pdf \<and>
         length (fpdf_pages pdf') = i + length urls \<and>
         take i (fpdf_pages pdf') = fpdf_pages pdf \<and>
         wd' = wd\<lparr>http_log := http_log wd @ map ImageRequest urls\<rparr> \<and>
         (\<forall>j<length urls. \<exists>content ls.
            i + j < length md \<and>
            image_get e (urls ! j) = Inr content \<and>
            links (md ! (i + j)) = Some ls \<and>
            fpdf_pages pdf' ! (i + j) =
              \<lparr>fp_dims = fpdf_format pdf, fp_images = [(content, w, h)],
               fp_links = map (\<lambda>l. (link_left l, h - link_top l, link_width l,
                                      link_height l, link_url l)) ls\<rparr>)"
  using assms
proof (induction urls arbitrary: i pdf wd)
  case Nil
  then show ?case by simp
next
  case (Cons u urls)
  let ?wd1 = "wd\<lparr>http_log := http_log wd @ [ImageRequest u]\<rparr>"
  from Cons.prems(1) obtain content where c: "image_get e u = Inr content"
    by (auto simp: Let_def split: sum.splits)
  from Cons.prems(1) c obtain ls where l: "page_links md i = Inr ls"
    by (auto simp: Let_def split: sum.splits)
  let ?p = "\<lparr>fp_dims = fpdf_format pdf, fp_images = [(content, w, h)],
              fp_links = map (\<lambda>l. (link_left l, h - link_top l, link_width l,
                                      link_height l, link_url l)) ls\<rparr>"
  let ?pdf1 = "plain_links (image (add_page pdf) content w h) h ls"
  have pg: "fpdf_pages (image (add_page pdf) content w h) =
              fpdf_pages pdf @ [\<lparr>fp_dims = fpdf_format pdf, fp_images = [(content, w, h)], fp_links = []\<rparr>]"
    by (simp add: image_def add_page_def on_last_snoc)
  have pdf1: "?pdf1 = pdf\<lparr>fpdf_pages := fpdf_pages pdf @ [?p]\<rparr>"
    using plain_links_snoc [OF pg, of h ls] by (simp add: image_def add_page_def)
  have rec: "generate_pdf_loop e md w h (Suc i) urls (?pdf1, ?wd1) = (Inr pdf', wd')"
    using Cons.prems(1) c l by (simp add: Let_def)
  have len: "length (fpdf_pages ?pdf1) = Suc i"
    using Cons.prems(2) by (simp add: pdf1)
  note IH = Cons.IH [OF rec len]
  from l have il: "i < length md" and ll: "links (md ! i) = Some ls"
    by (auto simp: page_links_def split: if_splits option.splits)
  have tk: "take (Suc i) (fpdf_pages pdf') = fpdf_pages pdf @ [?p]"
    using IH by (simp add: pdf1)
  have at_i: "fpdf_pages pdf' ! i = ?p"
  proof -
    have "fpdf_pages pdf' ! i = take (Suc i) (fpdf_pages pdf') ! i" by simp
    also have "\<dots> = ?p" using Cons.prems(2) by (simp add: tk nth_append)
    finally show ?thesis .
  qed
  have tk_i: "take i (fpdf_pages pdf') = fpdf_pages pdf"
  proof -
    have "take i (fpdf_pages pdf') = take i (take (Suc i) (fpdf_pages pdf'))" by (simp add: min_def)
    also have "\<dots> = fpdf_pages pdf" using Cons.prems(2) by (simp add: tk)
    finally show ?thesis .
  qed
  have each: "\<exists>content ls.
            i + j < length md \<and>
            image_get e ((u # urls) ! j) = Inr content \<and>
            links (md ! (i + j)) = Some ls \<and>
            fpdf_pages pdf' ! (i + j) =
              \<lparr>fp_dims = fpdf_format pdf, fp_images = [(content, w, h)],
               fp_links = map (\<lambda>l. (link_left l, h - link_top l, link_width l,
                                      link_height l, link_url l)) ls\<rparr>"
    if j: "j < length (u # urls)" for j
  proof (cases j)
    case 0
    then show ?thesis using c il ll at_i by simp
  next
    case (Suc k)
    with j have "k < length urls" by simp
    with IH show ?thesis using Suc by (simp add: pdf1)
  qed
  show ?case
    using IH tk_i each by (simp add: pdf1)
qed


lemma tesseract_written: "tesseract e (wd\<lparr>file_png := Some img\<rparr>) = image_to_pdf e img"
  by (simp add: tesseract_def)

lemma scale_page_Inr:
  "scale_page tw th box = Inr (f, page) \<longleftrightarrow>
     fst box \<noteq> 0 \<and> snd box \<noteq> 0 \<and>
     f = min (float_truediv (to_float th) (to_float (snd box)))
             (float_truediv (to_float tw) (to_float (fst box))) \<and>
     page = scale_by box f"
  by (auto simp: scale_page_def Let_def to_float_eq_0_iff)

lemma searchable_loop_ok:
  assumes "searchable_loop e md tw th i urls (wr, wd) = (Inr wr', wd')"
    and "length wr = i"
  shows "length wr' = i + length urls \<and>
         take i wr' = wr \<and>
         http_log wd' = http_log wd @ map ImageRequest urls \<and>
         (urls = [] \<longrightarrow> wd' = wd) \<and>
         (urls \<noteq> [] \<longrightarrow> file_png wd' \<noteq> None) \<and>
         (\<forall>j<length urls. \<exists>img sw sh ls.
            i + j < length md \<and>
            image_get e (urls ! j) = Inr img \<and>
            image_to_pdf e img = Inr (sw, sh) \<and> sw \<noteq> 0 \<and> sh \<noteq> 0 \<and>
            links (md ! (i + j)) = Some ls \<and>
            wr' ! (i + j) =
              \<lparr>wp_dims = scale_by (sw, sh)
                                  (min (float_truediv (to_float th) (to_float sh))
                                       (float_truediv (to_float tw) (to_float sw))),
               wp_annotations =
                 map (\<lambda>l. ((link_left l, link_top l, link_left l + link_width l,
                             link_top l + link_height l), link_url l)) ls\<rparr>)"
  using assms
proof (induction urls arbitrary: i wr wd)
  case Nil
  then show ?case by simp
next
  case (Cons u urls)
  let ?wd1 = "wd\<lparr>http_log := http_log wd @ [ImageRequest u]\<rparr>"
  from Cons.prems(1) obtain img where c: "image_get e u = Inr img"
    by (auto simp: Let_def split: sum.splits)
  from Cons.prems(1) c have fo: "file_open_ok e"
    by (auto simp: Let_def split: if_splits)
  let ?wd2 = "?wd1\<lparr>file_png := Some img\<rparr>"
  from Cons.prems(1) c fo obtain box where t: "image_to_pdf e img = Inr box"
    by (auto simp: Let_def tesseract_written split: sum.splits)
  obtain sw sh where box: "box = (sw, sh)" by (cases box)
  from Cons.prems(1) c fo t obtain f page where sp: "scale_page tw th box = Inr (f, page)"
    by (auto simp: Let_def tesseract_written split: sum.splits)
  then have nz: "sw \<noteq> 0" "sh \<noteq> 0"
    and f: "f = min (float_truediv (to_float th) (to_float sh))
                    (float_truediv (to_float tw) (to_float sw))"
    and page: "page = scale_by (sw, sh) f"
    by (simp_all add: scale_page_Inr box)
  from Cons.prems(1) c fo t sp obtain ls where l: "page_links md i = Inr ls"
    by (auto simp: Let_def tesseract_written split: sum.splits)
  let ?p = "\<lparr>wp_dims = page, wp_annotations =
                 map (\<lambda>l. ((link_left l, link_top l, link_left l + link_width l,
                             link_top l + link_height l), link_url l)) ls\<rparr>"
  have sl: "searchable_links (writer_add_page wr page) i ls = Inr (wr @ [?p])"
    using searchable_links_at [of i "writer_add_page wr page" ls] Cons.prems(2)
    by (auto simp: writer_add_page_def nth_append)
  have rec: "searchable_loop e md tw th (Suc i) urls (wr @ [?p], ?wd2) = (Inr wr', wd')"
    using Cons.prems(1) c fo t sp l sl by (simp add: Let_def tesseract_written)
  have len: "length (wr @ [?p]) = Suc i"
    using Cons.prems(2) by simp
  note IH = Cons.IH [OF rec len]
  from l have il: "i < length md" and ll: "links (md ! i) = Some ls"
    by (auto simp: page_links_def split: if_splits option.splits)
  have tk: "take (Suc i) wr' = wr @ [?p]"
    using IH by simp
  have at_i: "wr' ! i = ?p"
  proof -
    have "wr' ! i = take (Suc i) wr' ! i" by simp
    also have "\<dots> = ?p" using Cons.prems(2) by (simp add: tk nth_append)
    finally show ?thesis .
  qed
  have tk_i: "take i wr' = wr"
  proof -
    have "take i wr' = take i (take (Suc i) wr')" by (simp add: min_def)
    also have "\<dots> = wr" using Cons.prems(2) by (simp add: tk)
    finally show ?thesis .
  qed
  have fp: "file_png wd' \<noteq> None"
  proof (cases urls)
    case Nil
    with IH show ?thesis by simp
  next
    case (Cons a list)
    with IH show ?thesis by simp
  qed
  have each: "\<exists>img sw sh ls.
            i + j < length md \<and>
            image_get e ((u # urls) ! j) = Inr img \<and>
            image_to_pdf e img = Inr (sw, sh) \<and> sw \<noteq> 0 \<and> sh \<noteq> 0 \<and>
            links (md ! (i + j)) = Some ls \<and>
            wr' ! (i + j) =
              \<lparr>wp_dims = scale_by (sw, sh)
                                  (min (float_truediv (to_float th) (to_float sh))
                                       (float_truediv (to_float tw) (to_float sw))),
               wp_annotations =
                 map (\<lambda>l. ((link_left l, link_top l, link_left l + link_width l,
                             link_top l + link_height l), link_url l)) ls\<rparr>"
    if j: "j < length (u # urls)" for j
  proof (cases j)
    case 0
    then show ?thesis using c t box nz il ll at_i f page by simp
  next
    case (Suc k)
    with j have "k < length urls" by simp
    with IH show ?thesis using Suc by simp
  qed
  show ?case
    using IH tk_i each fp by simp
qed


lemma run_Inr_cases:
  assumes "run e s sw = (Inr out, d', w')"
  obtains d1 w1 d2 where
    "get_resume_metadata e sw = (Inr (), d1, w1)"
    "format_images_urls d1 = Inr d2"
    "(if s then generate_pdf_searchable e (d2, w1) else generate_pdf e (d2, w1)) = (Inr (), d', w')"
    "buffer d' = Some out"
  using assms unfolding run_def
  by (auto split: prod.splits sum.splits option.splits)

lemma get_resume_metadata_Inr:
  assumes "get_resume_metadata e (d, w) = (Inr u, d1, w1)"
  shows "\<exists>r pages. requests_get e (METADATA_URL (resume_id d) (cache_date d)) = Inr r \<and>
           json_loads e (text_of r) = JsonObject pages \<and>
           d1 = d\<lparr>metadata := pages\<rparr> \<and>
           w1 = w\<lparr>http_log := http_log w @
                   [MetadataRequest (METADATA_URL (resume_id d) (cache_date d))]\<rparr>"
  using assms unfolding get_resume_metadata_def
  by (auto simp: Let_def split: sum.splits meta_body.splits)

lemma format_images_urls_Inr:
  assumes "format_images_urls d1 = Inr d2"
  shows "\<exists>md. metadata d1 = Some md \<and>
           d2 = d1\<lparr>images_urls := images_urls d1 @
                  map (\<lambda>k. IMAGE_URL (resume_id d1) k (extension d1) (cache_date d1) (image_size d1))
                    [1 ..< 1 + length md]\<rparr>"
  using assms unfolding format_images_urls_def
  by (auto simp: foldl_append_image_url split: option.splits)

lemma generate_pdf_Inr:
  assumes "generate_pdf e (d2, w1) = (Inr u, d', w')"
  shows "\<exists>md a b pdf. metadata d2 = Some md \<and> first_viewport md = Inr (a, b) \<and>
           generate_pdf_loop e md a b 0 (images_urls d2) (FPDF (a, b), w1) = (Inr pdf, w') \<and>
           d' = d2\<lparr>buffer := Some (FpdfOutput pdf)\<rparr>"
  using assms unfolding generate_pdf_def
  by (auto simp: Let_def split: option.splits sum.splits prod.splits)

lemma generate_pdf_searchable_Inr:
  assumes "generate_pdf_searchable e (d2, w1) = (Inr u, d', w')"
  shows "\<exists>md a b wr w2. metadata d2 = Some md \<and> first_viewport md = Inr (a, b) \<and>
           searchable_loop e md a b 0 (images_urls d2) ([], w1) = (Inr wr, w2) \<and>
           os_remove w2 = Inr w' \<and>
           d' = d2\<lparr>buffer := Some (WriterOutput wr)\<rparr>"
  using assms unfolding generate_pdf_searchable_def
  by (auto simp: Let_def split: option.splits sum.splits prod.splits)

lemma first_viewport_nonempty: "first_viewport md = Inr v \<Longrightarrow> md \<noteq> []"
  by (auto simp: first_viewport_def)

lemma length_page_ids: "length [1 ..< 1 + n] = n"
  by (simp del: upt_Suc)

lemma run_plain_ok:
  assumes "run e False (d, w) = (Inr out, d', w')"
  shows "\<exists>pdf md a b.
           out = FpdfOutput pdf \<and> metadata d' = Some md \<and> first_viewport md = Inr (a, b) \<and>
           images_urls d = [] \<and>
           images_urls d' =
             map (\<lambda>k. IMAGE_URL (resume_id d) k (extension d) (cache_date d) (image_size d))
               [1 ..< 1 + length md] \<and>
           length (fpdf_pages pdf) = length md \<and>
           (\<forall>j<length md. \<exists>content ls.
              image_get e (images_urls d' ! j) = Inr content \<and>
              links (md ! j) = Some ls \<and>
              fpdf_pages pdf ! j =
                \<lparr>fp_dims = (a, b), fp_images = [(content, a, b)],
                 fp_links = map (\<lambda>l. (link_left l, b - link_top l, link_width l,
                                        link_height l, link_url l)) ls\<rparr>)"
proof -
  from assms obtain d1 w1 d2 where
    g: "get_resume_metadata e (d, w) = (Inr (), d1, w1)" and
    f: "format_images_urls d1 = Inr d2" and
    p: "generate_pdf e (d2, w1) = (Inr (), d', w')" and
    b: "buffer d' = Some out"
    by (rule run_Inr_cases) simp
  from get_resume_metadata_Inr [OF g] obtain pages where d1: "d1 = d\<lparr>metadata := pages\<rparr>"
    by blast
  from format_images_urls_Inr [OF f] d1 obtain md where
    md: "pages = Some md" and
    d2: "d2 = d1\<lparr>images_urls := images_urls d @
                  map (\<lambda>k. IMAGE_URL (resume_id d) k (extension d) (cache_date d) (image_size d))
                    [1 ..< 1 + length md]\<rparr>"
    by auto
  let ?new = "map (\<lambda>k. IMAGE_URL (resume_id d) k (extension d) (cache_date d) (image_size d))
                    [1 ..< 1 + length md]"
  from generate_pdf_Inr [OF p] d2 d1 md obtain a b0 pdf where
    fv: "first_viewport md = Inr (a, b0)" and
    lp: "generate_pdf_loop e md a b0 0 (images_urls d @ ?new) (FPDF (a, b0), w1) = (Inr pdf, w')" and
    d': "d' = d2\<lparr>buffer := Some (FpdfOutput pdf)\<rparr>"
    by auto
  have l0: "length (fpdf_pages (FPDF (a, b0))) = 0" by (simp add: FPDF_def)
  note L = generate_pdf_loop_ok [OF lp l0]
  have ne: "md \<noteq> []" using fv by (rule first_viewport_nonempty)
  have fresh: "images_urls d = []"
  proof (rule ccontr)
    assume "images_urls d \<noteq> []"
    then have "0 < length (images_urls d)" by simp
    moreover have "length ?new = length md" by (simp only: length_map length_page_ids)
    ultimately have "length md < length (images_urls d @ ?new)" by (simp only: length_append)
    with L have "0 + length md < length md" by blast
    then show False by simp
  qed
  have out: "out = FpdfOutput pdf" using b d' by simp
  have each: "\<exists>content ls.
              image_get e (images_urls d' ! j) = Inr content \<and>
              links (md ! j) = Some ls \<and>
              fpdf_pages pdf ! j =
                \<lparr>fp_dims = (a, b0), fp_images = [(content, a, b0)],
                 fp_links = map (\<lambda>l. (link_left l, b0 - link_top l, link_width l,
                                        link_height l, link_url l)) ls\<rparr>"
    if "j < length md" for j
  proof -
    from that have "j < length (images_urls d @ ?new)"
      by (simp only: length_append length_map length_page_ids fresh list.size)
    with L obtain content ls where
      "image_get e ((images_urls d @ ?new) ! j) = Inr content"
      "links (md ! (0 + j)) = Some ls"
      "fpdf_pages pdf ! (0 + j) =
              \<lparr>fp_dims = fpdf_format (FPDF (a, b0)), fp_images = [(content, a, b0)],
               fp_links = map (\<lambda>l. (link_left l, b0 - link_top l, link_width l,
                                      link_height l, link_url l)) ls\<rparr>"
      by blast
    then show ?thesis
      by (simp add: d' d2 d1 fresh FPDF_def)
  qed
  have len: "length (fpdf_pages pdf) = length md"
    using L by (simp add: fresh length_page_ids del: upt_Suc)
  show ?thesis
    using out fv fresh len each by (auto simp: d' d2 d1 md)
qed


lemma os_remove_Inr: "os_remove w2 = Inr w' \<Longrightarrow> file_png w' = None \<and> http_log w' = http_log w2"
  by (auto simp: os_remove_def split: option.splits)

lemma run_searchable_ok:
  assumes "run e True (d, w) = (Inr out, d', w')"
  shows "\<exists>wr md a b.
           out = WriterOutput wr \<and> metadata d' = Some md \<and> first_viewport md = Inr (a, b) \<and>
           images_urls d = [] \<and>
           images_urls d' =
             map (\<lambda>k. IMAGE_URL (resume_id d) k (extension d) (cache_date d) (image_size d))
               [1 ..< 1 + length md] \<and>
           length wr = length md \<and>
           file_png w' = None \<and>
           (\<forall>j<length md. \<exists>img sw sh ls.
              image_get e (images_urls d' ! j) = Inr img \<and>
              image_to_pdf e img = Inr (sw, sh) \<and> sw \<noteq> 0 \<and> sh \<noteq> 0 \<and>
              links (md ! j) = Some ls \<and>
              wr ! j =
                \<lparr>wp_dims = scale_by (sw, sh)
                                    (min (float_truediv (to_float b) (to_float sh))
                                         (float_truediv (to_float a) (to_float sw))),
                 wp_annotations =
                   map (\<lambda>l. ((link_left l, link_top l, link_left l + link_width l,
                               link_top l + link_height l), link_url l)) ls\<rparr>)"
proof -
  from assms obtain d1 w1 d2 where
    g: "get_resume_metadata e (d, w) = (Inr (), d1, w1)" and
    f: "format_images_urls d1 = Inr d2" and
    p: "generate_pdf_searchable e (d2, w1) = (Inr (), d', w')" and
    b: "buffer d' = Some out"
    by (rule run_Inr_cases) simp
  from get_resume_metadata_Inr [OF g] obtain pages where d1: "d1 = d\<lparr>metadata := pages\<rparr>"
    by blast
  from format_images_urls_Inr [OF f] d1 obtain md where
    md: "pages = Some md" and
    d2: "d2 = d1\<lparr>images_urls := images_urls d @
                  map (\<lambda>k. IMAGE_URL (resume_id d) k (extension d) (cache_date d) (image_size d))
                    [1 ..< 1 + length md]\<rparr>"
    by auto
  let ?new = "map (\<lambda>k. IMAGE_URL (resume_id d) k (extension d) (cache_date d) (image_size d))
                    [1 ..< 1 + length md]"
  from generate_pdf_searchable_Inr [OF p] d2 d1 md obtain a b0 wr w2 where
    fv: "first_viewport md = Inr (a, b0)" and
    lp: "searchable_loop e md a b0 0 (images_urls d @ ?new) ([], w1) = (Inr wr, w2)" and
    rm: "os_remove w2 = Inr w'" and
    d': "d' = d2\<lparr>buffer := Some (WriterOutput wr)\<rparr>"
    by auto
  have l0: "length ([] :: writer_page list) = 0" by simp
  note L = searchable_loop_ok [OF lp l0]
  have fresh: "images_urls d = []"
  proof (rule ccontr)
    assume "images_urls d \<noteq> []"
    then have "0 < length (images_urls d)" by simp
    moreover have "length ?new = length md" by (simp only: length_map length_page_ids)
    ultimately have "length md < length (images_urls d @ ?new)" by (simp only: length_append)
    with L have "0 + length md < length md" by blast
    then show False by simp
  qed
  have out: "out = WriterOutput wr" using b d' by simp
  have each: "\<exists>img sw sh ls.
              image_get e (images_urls d' ! j) = Inr img \<and>
              image_to_pdf e img = Inr (sw, sh) \<and> sw \<noteq> 0 \<and> sh \<noteq> 0 \<and>
              links (md ! j) = Some ls \<and>
              wr ! j =
                \<lparr>wp_dims = scale_by (sw, sh)
                                    (min (float_truediv (to_float b0) (to_float sh))
                                         (float_truediv (to_float a) (to_float sw))),
                 wp_annotations =
                   map (\<lambda>l. ((link_left l, link_top l, link_left l + link_width l,
                               link_top l + link_height l), link_url l)) ls\<rparr>"
    if "j < length md" for j
  proof -
    from that have "j < length (images_urls d @ ?new)"
      by (simp only: length_append length_map length_page_ids fresh list.size)
    with L obtain img sw sh ls where
      "image_get e ((images_urls d @ ?new) ! j) = Inr img"
      "image_to_pdf e img = Inr (sw, sh)" "sw \<noteq> 0" "sh \<noteq> 0"
      "links (md ! (0 + j)) = Some ls"
      "wr ! (0 + j) =
              \<lparr>wp_dims = scale_by (sw, sh)
                                  (min (float_truediv (to_float b0) (to_float sh))
                                       (float_truediv (to_float a) (to_float sw))),
               wp_annotations =
                 map (\<lambda>l. ((link_left l, link_top l, link_left l + link_width l,
                             link_top l + link_height l), link_url l)) ls\<rparr>"
      by blast
    then show ?thesis
      by (auto simp: d' d2 d1 fresh)
  qed
  have len: "length wr = length md"
    using L by (simp add: fresh length_page_ids del: upt_Suc)
  have gone: "file_png w' = None" using os_remove_Inr [OF rm] by simp
  show ?thesis
    using out fv fresh len each gone by (auto simp: d' d2 d1 md)
qed

lemma Inr_result:
  assumes "\<not> isl (fst r)"
  obtains out d' w' where "r = (Inr out, d', w')"
  using assms by (cases r; cases "fst r") auto


lemma run_Inr_metadata:
  assumes "run e s (d, w) = (Inr out, d', w')"
  shows "\<exists>resp. requests_get e (METADATA_URL (resume_id d) (cache_date d)) = Inr resp \<and>
           json_loads e (text_of resp) = JsonObject (metadata d')"
proof -
  from assms obtain d1 w1 d2 where
    g: "get_resume_metadata e (d, w) = (Inr (), d1, w1)" and
    f: "format_images_urls d1 = Inr d2" and
    p: "(if s then generate_pdf_searchable e (d2, w1) else generate_pdf e (d2, w1)) =
          (Inr (), d', w')"
    by (rule run_Inr_cases)
  from get_resume_metadata_Inr [OF g] obtain resp pages where
    r: "requests_get e (METADATA_URL (resume_id d) (cache_date d)) = Inr resp"
       "json_loads e (text_of resp) = JsonObject pages" and
    d1: "metadata d1 = pages"
    by auto
  from format_images_urls_Inr [OF f] have d2: "metadata d2 = metadata d1" by auto
  have "metadata d' = metadata d2"
  proof (cases s)
    case True
    with p have "generate_pdf_searchable e (d2, w1) = (Inr (), d', w')" by simp
    from generate_pdf_searchable_Inr [OF this] show ?thesis by auto
  next
    case False
    with p have "generate_pdf e (d2, w1) = (Inr (), d', w')" by simp
    from generate_pdf_Inr [OF this] show ?thesis by auto
  qed
  with r d1 d2 show ?thesis by simp
qed

section \<open>Plain mode: page count and page size\<close>

text \<open>
  Counterexample to C1 as stated. The second page of the metadata declares a viewport of
  400 by 600, and the second page of the output is 500 by 800, the viewport of the first
  page: \<open>_generate_pdf\<close> reads \<open>self.metadata[0]\<close> once and gives the format to the whole
  document.
\<close>

theorem plain_second_page_takes_first_viewport:
  "fst (run (example_env 200 (JsonObject (Some [page_a, page_b])) (Inr (612, 792))) False
         (fresh_downloader, empty_world)) =
   Inr (FpdfOutput
     \<lparr>fpdf_format = (500, 800),
      fpdf_pages =
        [\<lparr>fp_dims = (500, 800), fp_images = [(''PNG'', 500, 800)],
          fp_links = [(10, 780, 100, 50, ''https://example.com'')]\<rparr>,
         \<lparr>fp_dims = (500, 800), fp_images = [(''PNG'', 500, 800)],
          fp_links = [(10, 780, 100, 50, ''https://example.com'')]\<rparr>]\<rparr>) \<and>
   viewport page_b = Some [(''width'', 400), (''height'', 600)]"
  by code_simp

text \<open>
  C1 (amended): in plain mode a run that returns a document returns one with as many pages
  as the metadata has entries, and every page has the two values of the first entry's
  viewport (in the order of its members) as its dimensions.
\<close>

theorem plain_pages_first_viewport:
  assumes "run e False (d, w) = (Inr out, d', w')"
  shows "\<exists>pdf md a b.
           out = FpdfOutput pdf \<and> metadata d' = Some md \<and> first_viewport md = Inr (a, b) \<and>
           length (fpdf_pages pdf) = length md \<and>
           (\<forall>i<length md. fp_dims (fpdf_pages pdf ! i) = (a, b))"
proof -
  from run_plain_ok [OF assms] obtain pdf md a b where
    *: "out = FpdfOutput pdf" "metadata d' = Some md" "first_viewport md = Inr (a, b)"
       "length (fpdf_pages pdf) = length md" and
    each: "\<forall>j<length md. \<exists>content ls.
              image_get e (images_urls d' ! j) = Inr content \<and>
              links (md ! j) = Some ls \<and>
              fpdf_pages pdf ! j =
                \<lparr>fp_dims = (a, b), fp_images = [(content, a, b)],
                 fp_links = map (\<lambda>l. (link_left l, b - link_top l, link_width l,
                                        link_height l, link_url l)) ls\<rparr>"
    by blast
  have "fp_dims (fpdf_pages pdf ! i) = (a, b)" if "i < length md" for i
    using each that by fastforce
  with * show ?thesis by blast
qed

theorem plain_pages_first_viewport_witness:
  "\<exists>pdf d' w'.
     run (example_env 200 (JsonObject (Some [page_a, page_a])) (Inr (612, 792))) False
       (fresh_downloader, empty_world) = (Inr (FpdfOutput pdf), d', w') \<and>
     metadata d' = Some [page_a, page_a] \<and>
     length (fpdf_pages pdf) = 2 \<and>
     fp_dims (fpdf_pages pdf ! 0) = (500, 800) \<and>
     fp_dims (fpdf_pages pdf ! 1) = (500, 800)"
proof -
  let ?r = "run (example_env 200 (JsonObject (Some [page_a, page_a])) (Inr (612, 792))) False
       (fresh_downloader, empty_world)"
  have "\<not> isl (fst ?r)" by code_simp
  then obtain out d' w' where h: "?r = (Inr out, d', w')" by (rule Inr_result)
  have m: "metadata (fst (snd ?r)) = Some [page_a, page_a]" by code_simp
  have v: "first_viewport [page_a, page_a] = Inr (500, 800)" by code_simp
  from plain_pages_first_viewport [OF h] m v h show ?thesis
    by (auto simp: less_Suc_eq numeral_2_eq_2)
qed

section \<open>Plain mode: where a link is placed\<close>




section \<open>Searchable mode: the scale factor\<close>




section \<open>Searchable mode: where a link is placed\<close>



section \<open>Construction: which identifiers are accepted\<close>

text \<open>
  C5, evaluated where the code leaves the claim. \<open>__post_init__\<close> accepts the ten
  characters \<open>abc123XYZ\<close> plus a newline, and keeps the newline in \<open>resume_id\<close>, because
  \<open>$\<close> matches before a final newline; and it accepts \<open>resumeXio/r/abc123XYZ\<close>, which
  does not contain the prefix \<open>resume.io/r/\<close>, because the dot of the pattern is not
  escaped. Neither input is a nine-character token or holds one after that prefix.
\<close>

theorem post_init_accepts_non_identifiers:
  "post_init (self\<lparr>resume_id := ''abc123XYZ'' @ [newline]\<rparr>) =
     Inr (self\<lparr>resume_id := ''abc123XYZ'' @ [newline]\<rparr>) \<and>
   post_init (self\<lparr>resume_id := ''resumeXio/r/abc123XYZ''\<rparr>) =
     Inr (self\<lparr>resume_id := ''abc123XYZ''\<rparr>)"
  by (simp add: post_init_def pattern_id_search_def url_match_here_def is_alnum_def newline_def)

section \<open>Construction: when the cache token is taken\<close>

text \<open>
  C6, evaluated where the code leaves the claim. A module loaded at
  \<open>2024-01-01T00:00:00.000001\<close> gives every object constructed later without a
  \<open>cache_date\<close> argument the token \<open>2024-01-01T00:00:00.00Z\<close>, whatever the clock reads at
  construction (\<open>now\<close> is arbitrary): the default is evaluated once, with the class.
\<close>

theorem cache_date_is_load_time:
  "ResumeioDownloader (load_module ''2024-01-01T00:00:00.000001'') now ''abc123XYZ''
     None None None =
   Inr \<lparr>resume_id = ''abc123XYZ'', extension = ''png'', image_size = 1800,
        cache_date = ''2024-01-01T00:00:00.00Z'', images_urls = [], metadata = None,
        buffer = None\<rparr>"
  by (simp add: ResumeioDownloader_def load_module_def post_init_def pattern_id_search_def
      is_alnum_def)

section \<open>Searchable mode: the transient raster file\<close>

text \<open>
  Counterexample to C7 as stated, in two runs that start without the file. In the first,
  tesseract fails on the only page: the run raises and the file written for that page is
  still there. In the second, the first page is processed to its end and the image of
  the second page cannot be fetched: the run raises and the file still holds the raster
  of the first page, whose OCR pass had consumed it.
\<close>

theorem raster_file_left_behind:
  "file_png empty_world = None \<and>
   fst (run (example_env 200 (JsonObject (Some [page_a])) (Inl TesseractError)) True
         (fresh_downloader, empty_world)) = Inl TesseractError \<and>
   file_png (snd (snd (run (example_env 200 (JsonObject (Some [page_a])) (Inl TesseractError))
       True (fresh_downloader, empty_world)))) = Some ''PNG'' \<and>
   fst (run second_fetch_fails True (fresh_downloader, empty_world)) = Inl RequestException \<and>
   http_log (snd (snd (run second_fetch_fails True (fresh_downloader, empty_world)))) =
     [MetadataRequest (METADATA_URL ''abc123XYZ'' ''2024-01-01T00:00:00.00Z''),
      ImageRequest (IMAGE_URL ''abc123XYZ'' 1 ''png'' ''2024-01-01T00:00:00.00Z'' 1800),
      ImageRequest (IMAGE_URL ''abc123XYZ'' 2 ''png'' ''2024-01-01T00:00:00.00Z'' 1800)] \<and>
   file_png (snd (snd (run second_fetch_fails True (fresh_downloader, empty_world)))) =
     Some ''PNG''"
  by code_simp

text \<open>
  C7 (amended): in searchable mode, after a run that returns a document, the raster file
  does not exist, whether or not it existed before the run; and for every page the OCR
  pass has read the raster fetched for that page. The file after a run that raises is
  left out of the statement.
\<close>

theorem raster_file_removed_on_success:
  assumes "run e True (d, w) = (Inr out, d', w')"
  shows "file_png w' = None \<and>
         (\<exists>md. metadata d' = Some md \<and>
            (\<forall>i<length md. \<exists>img box.
               image_get e (images_urls d' ! i) = Inr img \<and> image_to_pdf e img = Inr box))"
proof -
  from run_searchable_ok [OF assms] obtain wr md a b where
    *: "metadata d' = Some md" "file_png w' = None" and
    each: "\<forall>j<length md. \<exists>img sw sh ls.
              image_get e (images_urls d' ! j) = Inr img \<and>
              image_to_pdf e img = Inr (sw, sh) \<and> sw \<noteq> 0 \<and> sh \<noteq> 0 \<and>
              links (md ! j) = Some ls \<and>
              wr ! j =
                \<lparr>wp_dims = scale_by (sw, sh)
                  (min (float_truediv (to_float b) (to_float sh))
                       (float_truediv (to_float a) (to_float sw))),
                 wp_annotations =
                   map (\<lambda>l. ((link_left l, link_top l, link_left l + link_width l,
                               link_top l + link_height l), link_url l)) ls\<rparr>"
    by blast
  have "\<exists>img box. image_get e (images_urls d' ! i) = Inr img \<and> image_to_pdf e img = Inr box"
    if "i < length md" for i
    using each [rule_format, OF that] by blast
  with * show ?thesis by blast
qed

theorem raster_file_removed_on_success_witness:
  "\<exists>out d' w'.
     run (example_env 200 (JsonObject (Some [page_c, page_b])) (Inr (612, 792))) True
       (fresh_downloader, empty_world\<lparr>file_png := Some ''old''\<rparr>) = (Inr out, d', w') \<and>
     file_png w' = None \<and>
     metadata d' = Some [page_c, page_b] \<and>
     (\<exists>img box. image_get (example_env 200 (JsonObject (Some [page_c, page_b])) (Inr (612, 792)))
                  (images_urls d' ! 0) = Inr img \<and>
                image_to_pdf (example_env 200 (JsonObject (Some [page_c, page_b])) (Inr (612, 792)))
                  img = Inr box) \<and>
     (\<exists>img box. image_get (example_env 200 (JsonObject (Some [page_c, page_b])) (Inr (612, 792)))
                  (images_urls d' ! 1) = Inr img \<and>
                image_to_pdf (example_env 200 (JsonObject (Some [page_c, page_b])) (Inr (612, 792)))
                  img = Inr box)"
proof -
  let ?e = "example_env 200 (JsonObject (Some [page_c, page_b])) (Inr (612, 792))"
  let ?r = "run ?e True (fresh_downloader, empty_world\<lparr>file_png := Some ''old''\<rparr>)"
  have "\<not> isl (fst ?r)" by code_simp
  then obtain out d' w' where h: "?r = (Inr out, d', w')" by (rule Inr_result)
  from run_Inr_metadata [OF h] have m: "metadata d' = Some [page_c, page_b]"
    by (simp add: example_env_def)
  from raster_file_removed_on_success [OF h] m have
    g: "file_png w' = None" and
    each: "\<forall>i<length [page_c, page_b]. \<exists>img box.
             image_get ?e (images_urls d' ! i) = Inr img \<and> image_to_pdf ?e img = Inr box"
    by auto
  have lt: "0 < length [page_c, page_b]" "1 < length [page_c, page_b]" by simp_all
  from each [rule_format, OF lt(1)] each [rule_format, OF lt(2)] h g m show ?thesis
    by blast
qed

section \<open>A metadata response that cannot be used\<close>

text \<open>
  Counterexample to C8 as stated. The metadata request is answered with status 500 and a
  body that is well-formed JSON with one page: the run returns a one-page document and
  has fetched the image. And where the run does fail, on a body that is not JSON or has no
  \<open>pages\<close>, the exception is \<open>JSONDecodeError\<close> or \<open>TypeError\<close>: the source has no error
  of its own for this.
\<close>

theorem http_500_with_pages_is_served:
  "requests_get (example_env 500 (JsonObject (Some [page_c])) (Inr (612, 792)))
     (METADATA_URL ''abc123XYZ'' ''2024-01-01T00:00:00.00Z'') =
     Inr \<lparr>status_code = 500, text_of = ''body''\<rparr> \<and>
   fst (run (example_env 500 (JsonObject (Some [page_c])) (Inr (612, 792))) False
         (fresh_downloader, empty_world)) =
   Inr (FpdfOutput
     \<lparr>fpdf_format = (500, 700),
      fpdf_pages = [\<lparr>fp_dims = (500, 700), fp_images = [(''PNG'', 500, 700)], fp_links = []\<rparr>]\<rparr>) \<and>
   http_log (snd (snd (run (example_env 500 (JsonObject (Some [page_c])) (Inr (612, 792))) False
         (fresh_downloader, empty_world)))) =
     [MetadataRequest (METADATA_URL ''abc123XYZ'' ''2024-01-01T00:00:00.00Z''),
      ImageRequest (IMAGE_URL ''abc123XYZ'' 1 ''png'' ''2024-01-01T00:00:00.00Z'' 1800)] \<and>
   fst (run (example_env 500 NotJson (Inr (612, 792))) False
         (fresh_downloader, empty_world)) = Inl JSONDecodeError \<and>
   fst (run (example_env 200 (JsonObject None) (Inr (612, 792))) False
         (fresh_downloader, empty_world)) = Inl TypeError"
  by code_simp

text \<open>
  C8 (amended): if the body of the metadata response is not well-formed JSON, is JSON but
  not an object, or is an object without \<open>pages\<close>, then in both modes and whatever the
  status of the response the run raises \<open>JSONDecodeError\<close>, \<open>AttributeError\<close> or
  \<open>TypeError\<close> respectively; the only request made is the metadata request, so no image
  is fetched; and the object is as before the run, but for \<open>metadata\<close>, which is \<open>None\<close> in
  the third case: no address is added and no document is stored.
\<close>

theorem bad_metadata_aborts_before_images:
  assumes "requests_get e (METADATA_URL (resume_id d) (cache_date d)) = Inr resp"
    and "json_loads e (text_of resp) = body"
    and "body \<in> {NotJson, JsonNonObject, JsonObject None}"
  shows "run e s (d, w) =
           (Inl (case body of NotJson \<Rightarrow> JSONDecodeError | JsonNonObject \<Rightarrow> AttributeError
                 | JsonObject pages \<Rightarrow> TypeError),
            (case body of JsonObject pages \<Rightarrow> d\<lparr>metadata := None\<rparr> | _ \<Rightarrow> d),
            w\<lparr>http_log := http_log w @
                [MetadataRequest (METADATA_URL (resume_id d) (cache_date d))]\<rparr>)"
  using assms
  by (auto simp: run_def get_resume_metadata_def format_images_urls_def Let_def)

theorem bad_metadata_aborts_before_images_witness:
  "run (example_env 500 NotJson (Inr (612, 792))) True (fresh_downloader, empty_world) =
     (Inl JSONDecodeError, fresh_downloader,
      \<lparr>file_png = None,
       http_log = [MetadataRequest (METADATA_URL ''abc123XYZ'' ''2024-01-01T00:00:00.00Z'')]\<rparr>) \<and>
   run (example_env 200 JsonNonObject (Inr (612, 792))) True (fresh_downloader, empty_world) =
     (Inl AttributeError, fresh_downloader,
      \<lparr>file_png = None,
       http_log = [MetadataRequest (METADATA_URL ''abc123XYZ'' ''2024-01-01T00:00:00.00Z'')]\<rparr>) \<and>
   run (example_env 200 (JsonObject None) (Inr (612, 792))) False
       (fresh_downloader, empty_world) =
     (Inl TypeError, fresh_downloader,
      \<lparr>file_png = None,
       http_log = [MetadataRequest (METADATA_URL ''abc123XYZ'' ''2024-01-01T00:00:00.00Z'')]\<rparr>) \<and>
   buffer fresh_downloader = None"
proof -
  have r: "requests_get (example_env c b ocr) u = Inr \<lparr>status_code = c, text_of = ''body''\<rparr>"
    for c b ocr u
    by (simp add: example_env_def)
  have j: "json_loads (example_env c b ocr) t = b" for c b ocr t
    by (simp add: example_env_def)
  have 1: "NotJson \<in> {NotJson, JsonNonObject, JsonObject None}"
    and 2: "JsonNonObject \<in> {NotJson, JsonNonObject, JsonObject None}"
    and 3: "JsonObject None \<in> {NotJson, JsonNonObject, JsonObject None}"
    by simp_all
  from bad_metadata_aborts_before_images
      [where e = "example_env 500 NotJson (Inr (612, 792))" and d = fresh_downloader
         and s = True and w = empty_world, OF r j 1]
    bad_metadata_aborts_before_images
      [where e = "example_env 200 JsonNonObject (Inr (612, 792))" and d = fresh_downloader
         and s = True and w = empty_world, OF r j 2]
    bad_metadata_aborts_before_images
      [where e = "example_env 200 (JsonObject None) (Inr (612, 792))" and d = fresh_downloader
         and s = False and w = empty_world, OF r j 3]
  show ?thesis
    by (simp add: fresh_downloader_def empty_world_def)
qed

section \<open>Two runs side by side\<close>





lemma get_resume_metadata_frame:
  assumes "get_resume_metadata e (d, w) = (r, d', w')"
  shows "resume_id d' = resume_id d \<and> extension d' = extension d \<and>
         image_size d' = image_size d \<and> cache_date d' = cache_date d \<and>
         images_urls d' = images_urls d \<and> buffer d' = buffer d"
  using assms
  by (auto simp: get_resume_metadata_def Let_def split: sum.splits meta_body.splits)







section \<open>The address list over several runs\<close>

text \<open>
  No method changes the identifier, the extension, the image size or the cache token, and
  only \<open>_format_images_urls\<close> changes \<open>images_urls\<close>, by appending.
\<close>

lemma format_images_urls_frame:
  assumes "format_images_urls d = Inr d'"
  shows "resume_id d' = resume_id d \<and> extension d' = extension d \<and>
         image_size d' = image_size d \<and> cache_date d' = cache_date d \<and>
         metadata d' = metadata d \<and> buffer d' = buffer d"
  using format_images_urls_Inr [OF assms] by auto

lemma generate_pdf_frame:
  assumes "generate_pdf e (d, w) = (r, d', w')"
  shows "resume_id d' = resume_id d \<and> extension d' = extension d \<and>
         image_size d' = image_size d \<and> cache_date d' = cache_date d \<and>
         images_urls d' = images_urls d \<and> metadata d' = metadata d"
  using assms
  by (auto simp: generate_pdf_def split: option.splits sum.splits prod.splits)

lemma generate_pdf_searchable_frame:
  assumes "generate_pdf_searchable e (d, w) = (r, d', w')"
  shows "resume_id d' = resume_id d \<and> extension d' = extension d \<and>
         image_size d' = image_size d \<and> cache_date d' = cache_date d \<and>
         images_urls d' = images_urls d \<and> metadata d' = metadata d"
  using assms
  by (auto simp: generate_pdf_searchable_def split: option.splits sum.splits prod.splits)

lemma run_frame:
  assumes "run e s (d, w) = (r, d', w')"
  shows "resume_id d' = resume_id d \<and> extension d' = extension d \<and>
         image_size d' = image_size d \<and> cache_date d' = cache_date d"
proof -
  obtain r1 d1 w1 where g: "get_resume_metadata e (d, w) = (r1, d1, w1)"
    by (cases "get_resume_metadata e (d, w)")
  note F1 = get_resume_metadata_frame [OF g]
  show ?thesis
  proof (cases r1)
    case (Inl err)
    with assms g F1 show ?thesis by (auto simp: run_def)
  next
    case (Inr u)
    show ?thesis
    proof (cases "format_images_urls d1")
      case (Inl err)
      with assms g Inr F1 show ?thesis by (auto simp: run_def)
    next
      case d2: (Inr d2)
      note F2 = format_images_urls_frame [OF d2]
      obtain r3 d3 w3 where
        p: "(if s then generate_pdf_searchable e (d2, w1) else generate_pdf e (d2, w1)) =
              (r3, d3, w3)"
        by (cases "if s then generate_pdf_searchable e (d2, w1) else generate_pdf e (d2, w1)")
      have F3: "resume_id d3 = resume_id d2 \<and> extension d3 = extension d2 \<and>
         image_size d3 = image_size d2 \<and> cache_date d3 = cache_date d2"
        using p generate_pdf_frame [of e d2 w1 r3 d3 w3]
          generate_pdf_searchable_frame [of e d2 w1 r3 d3 w3]
        by (cases s) simp_all
      have "d' = d3"
        using assms g Inr d2 p by (auto simp: run_def split: sum.splits option.splits)
      with F1 F2 F3 show ?thesis by simp
    qed
  qed
qed

lemma run_appends:
  assumes "requests_get e (METADATA_URL (resume_id d) (cache_date d)) = Inr resp"
    and "json_loads e (text_of resp) = JsonObject (Some md)"
    and "run e s (d, w) = (r, d', w')"
  shows "images_urls d' =
           images_urls d @
           map (\<lambda>k. IMAGE_URL (resume_id d) k (extension d) (cache_date d) (image_size d))
             [1 ..< 1 + length md]"
proof -
  let ?w1 = "w\<lparr>http_log := http_log w @
                [MetadataRequest (METADATA_URL (resume_id d) (cache_date d))]\<rparr>"
  let ?d2 = "d\<lparr>metadata := Some md,
               images_urls := images_urls d @
                 map (\<lambda>k. IMAGE_URL (resume_id d) k (extension d) (cache_date d) (image_size d))
                   [1 ..< 1 + length md]\<rparr>"
  have g: "get_resume_metadata e (d, w) = (Inr (), d\<lparr>metadata := Some md\<rparr>, ?w1)"
    using assms(1,2) by (simp add: get_resume_metadata_def Let_def)
  have f: "format_images_urls (d\<lparr>metadata := Some md\<rparr>) = Inr ?d2"
    by (simp add: format_images_urls_def foldl_append_image_url del: upt_Suc)
  obtain r3 d3 w3 where
    p: "(if s then generate_pdf_searchable e (?d2, ?w1) else generate_pdf e (?d2, ?w1)) =
          (r3, d3, w3)"
    by (cases "if s then generate_pdf_searchable e (?d2, ?w1) else generate_pdf e (?d2, ?w1)")
  have F3: "images_urls d3 = images_urls ?d2"
    using p generate_pdf_frame [of e ?d2 ?w1 r3 d3 w3]
      generate_pdf_searchable_frame [of e ?d2 ?w1 r3 d3 w3]
    by (cases s) (simp_all del: upt_Suc)
  from assms(3) have
    "(case (r3, d3, w3) of
        (Inl err, self2, wd2) \<Rightarrow> (Inl err, self2, wd2)
      | (Inr x, self2, wd2) \<Rightarrow>
          (case buffer self2 of None \<Rightarrow> (Inl AttributeError, self2, wd2)
           | Some b \<Rightarrow> (Inr b, self2, wd2))) = (r, d', w')"
    by (simp only: run_def g f p prod.case sum.case)
  then have "d' = d3"
    by (auto split: sum.splits option.splits)
  with F3 show ?thesis by (simp del: upt_Suc)
qed

lemma run_times_length:
  assumes "requests_get e (METADATA_URL (resume_id d) (cache_date d)) = Inr resp"
    and "json_loads e (text_of resp) = JsonObject (Some md)"
  shows "length (images_urls (fst (run_times e s k (d, w)))) =
           length (images_urls d) + k * length md"
  using assms
proof (induction k arbitrary: d w)
  case 0
  show ?case by simp
next
  case (Suc k)
  obtain r d' w' where h: "run e s (d, w) = (r, d', w')" by (cases "run e s (d, w)")
  from run_frame [OF h] Suc.prems have
    1: "requests_get e (METADATA_URL (resume_id d') (cache_date d')) = Inr resp" by simp
  from run_appends [OF Suc.prems h] have
    "length (images_urls d') = length (images_urls d) + length md"
    by (simp only: length_append length_map length_page_ids)
  with Suc.IH [OF 1 Suc.prems(2), of w'] h show ?case by simp
qed

text \<open>
  Counterexample to C10 as stated, with two pages of metadata. The first run on a new
  object returns a document of two pages and leaves two addresses. The second run on that
  object returns no document: it raises \<open>IndexError\<close>, and leaves four addresses.
\<close>

theorem second_run_returns_no_document:
  "fst (run (example_env 200 (JsonObject (Some [page_c, page_b])) (Inr (612, 792))) False
         (fresh_downloader, empty_world)) =
   Inr (FpdfOutput
     \<lparr>fpdf_format = (500, 700),
      fpdf_pages =
        [\<lparr>fp_dims = (500, 700), fp_images = [(''PNG'', 500, 700)], fp_links = []\<rparr>,
         \<lparr>fp_dims = (500, 700), fp_images = [(''PNG'', 500, 700)],
          fp_links = [(10, 680, 100, 50, ''https://example.com'')]\<rparr>]\<rparr>) \<and>
   length (images_urls (fst (run_times
       (example_env 200 (JsonObject (Some [page_c, page_b])) (Inr (612, 792))) False 1
       (fresh_downloader, empty_world)))) = 2 \<and>
   fst (run (example_env 200 (JsonObject (Some [page_c, page_b])) (Inr (612, 792))) False
         (run_times (example_env 200 (JsonObject (Some [page_c, page_b])) (Inr (612, 792)))
            False 1 (fresh_downloader, empty_world))) = Inl IndexError \<and>
   length (images_urls (fst (run_times
       (example_env 200 (JsonObject (Some [page_c, page_b])) (Inr (612, 792))) False 2
       (fresh_downloader, empty_world)))) = 4"
  by code_simp

text \<open>
  C10 (amended): a call of \<open>run\<close> that receives metadata of \<open>N\<close> pages appends \<open>N\<close>
  addresses to \<open>images_urls\<close> and keeps the earlier ones, whether it then returns or
  raises, so that \<open>k\<close> calls on one object add \<open>k * N\<close> addresses. A call returns a document
  only when \<open>images_urls\<close> was empty before it, and the document then has \<open>N\<close> pages; a call
  on an object whose \<open>images_urls\<close> is not empty raises.
\<close>

theorem images_urls_accumulate:
  assumes "requests_get e (METADATA_URL (resume_id d) (cache_date d)) = Inr resp"
    and "json_loads e (text_of resp) = JsonObject (Some md)"
  shows "images_urls (fst (snd (run e s (d, w)))) =
           images_urls d @
           map (\<lambda>k. IMAGE_URL (resume_id d) k (extension d) (cache_date d) (image_size d))
             [1 ..< 1 + length md] \<and>
         length (images_urls (fst (run_times e s k (d, w)))) =
           length (images_urls d) + k * length md \<and>
         (\<forall>out. fst (run e s (d, w)) = Inr out \<longrightarrow>
            images_urls d = [] \<and> page_count out = length md) \<and>
         (images_urls d \<noteq> [] \<longrightarrow> isl (fst (run e s (d, w))))"
proof -
  obtain r d' w' where h: "run e s (d, w) = (r, d', w')" by (cases "run e s (d, w)")
  from run_appends [OF assms h] h have 1:
    "images_urls (fst (snd (run e s (d, w)))) =
           images_urls d @
           map (\<lambda>k. IMAGE_URL (resume_id d) k (extension d) (cache_date d) (image_size d))
             [1 ..< 1 + length md]"
    by (simp del: upt_Suc)
  note 2 = run_times_length [OF assms, of s k w]
  have 3: "images_urls d = [] \<and> page_count out = length md"
    if "fst (run e s (d, w)) = Inr out" for out
  proof -
    from that h have h': "run e s (d, w) = (Inr out, d', w')" by simp
    from run_Inr_metadata [OF h'] assms have m: "metadata d' = Some md" by simp
    show ?thesis
    proof (cases s)
      case True
      with h' have "run e True (d, w) = (Inr out, d', w')" by simp
      from run_searchable_ok [OF this] m show ?thesis
        by (auto simp: page_count_def)
    next
      case False
      with h' have "run e False (d, w) = (Inr out, d', w')" by simp
      from run_plain_ok [OF this] m show ?thesis
        by (auto simp: page_count_def)
    qed
  qed
  have 4: "isl (fst (run e s (d, w)))" if "images_urls d \<noteq> []"
  proof (cases "fst (run e s (d, w))")
    case (Inl err)
    then show ?thesis by simp
  next
    case (Inr out)
    from 3 [OF this] that show ?thesis by simp
  qed
  from 1 2 3 4 show ?thesis by blast
qed

theorem images_urls_accumulate_witness:
  "length (images_urls (fst (run_times
       (example_env 200 (JsonObject (Some [page_c, page_b])) (Inr (612, 792))) False 3
       (fresh_downloader, empty_world)))) = length (images_urls fresh_downloader) + 3 * 2 \<and>
   images_urls fresh_downloader = [] \<and>
   images_urls (fst (snd (run (example_env 200 (JsonObject (Some [page_c, page_b]))
       (Inr (612, 792))) False (fresh_downloader, empty_world)))) =
     [IMAGE_URL ''abc123XYZ'' 1 ''png'' ''2024-01-01T00:00:00.00Z'' 1800,
      IMAGE_URL ''abc123XYZ'' 2 ''png'' ''2024-01-01T00:00:00.00Z'' 1800] \<and>
   (\<exists>out. fst (run (example_env 200 (JsonObject (Some [page_c, page_b])) (Inr (612, 792)))
              False (fresh_downloader, empty_world)) = Inr out \<and> page_count out = 2) \<and>
   isl (fst (run (example_env 200 (JsonObject (Some [page_c, page_b])) (Inr (612, 792))) False
         (snd (run (example_env 200 (JsonObject (Some [page_c, page_b])) (Inr (612, 792)))
            False (fresh_downloader, empty_world)))))"
proof -
  let ?e = "example_env 200 (JsonObject (Some [page_c, page_b])) (Inr (612, 792))"
  let ?r = "run ?e False (fresh_downloader, empty_world)"
  have q: "requests_get ?e u = Inr \<lparr>status_code = 200, text_of = ''body''\<rparr>" for u
    by (simp add: example_env_def)
  have j: "json_loads ?e (text_of \<lparr>status_code = 200, text_of = ''body''\<rparr>) =
             JsonObject (Some [page_c, page_b])"
    by (simp add: example_env_def)
  note A = images_urls_accumulate [OF q j, where d = fresh_downloader and s = False
      and w = empty_world and k = 3]
  have fresh: "images_urls fresh_downloader = []" by (simp add: fresh_downloader_def)
  from A have a1: "images_urls (fst (snd ?r)) =
     [IMAGE_URL ''abc123XYZ'' 1 ''png'' ''2024-01-01T00:00:00.00Z'' 1800,
      IMAGE_URL ''abc123XYZ'' 2 ''png'' ''2024-01-01T00:00:00.00Z'' 1800]"
    by (simp add: fresh_downloader_def upt_rec numeral_2_eq_2)
  from A have a2: "length (images_urls (fst (run_times ?e False 3
       (fresh_downloader, empty_world)))) = length (images_urls fresh_downloader) + 3 * 2"
    by simp
  have "\<not> isl (fst ?r)" by code_simp
  then obtain out where o: "fst ?r = Inr out" by (cases "fst ?r") auto
  with A have a3: "page_count out = 2" by simp
  note B = images_urls_accumulate [OF q j, where d = "fst (snd ?r)" and s = False
      and w = "snd (snd ?r)" and k = 0]
  from a1 have "images_urls (fst (snd ?r)) \<noteq> []" by simp
  with B have a4: "isl (fst (run ?e False (snd ?r)))" by simp
  from a2 fresh a1 o a3 a4 show ?thesis by blast
qed

end
